theory Spec2Isabelle
  imports Complex_Main "HOL-Library.Stream" "HOL-Library.Multiset"
begin

section \<open>Mad adders: a genetic search over digit-wise addition algorithms\<close>

text \<open>
  The embedding follows \<^verbatim>\<open>mad_adders.py\<close> function by function.

  \<^item> Python integers are \<^typ>\<open>int\<close>. The numbers a candidate produces are integers
    (\<^verbatim>\<open>add\<close>, \<^verbatim>\<open>mult\<close>, \<^verbatim>\<open>exp\<close> on non-negative exponents) or floats (\<^verbatim>\<open>div\<close>);
    both are represented by their exact value in \<^typ>\<open>rat\<close>. The rounding and the range
    of IEEE doubles are outside the embedding.
  \<^item> Every \<^verbatim>\<open>raise\<close> is a value \<open>Inl e\<close> of the result type.
  \<^item> The module \<^verbatim>\<open>random\<close> is an explicit stream of natural numbers, consumed one
    number per call of \<^verbatim>\<open>choice\<close> or \<^verbatim>\<open>uniform\<close>; a computation takes the stream and
    returns what is left of it, also when it raises.
  \<^item> The three gene pools hold Python function objects, compared by identity; a gene is a
    constructor of a datatype, and a separate function gives what calling it does.
  \<^item> A population is a Python set where the driver builds it and a list where it is ranked;
    the functions that iterate over one take it as the list of its elements in the order
    of the iteration.
  \<^item> Printing (\<^verbatim>\<open>print_problem\<close>, \<^verbatim>\<open>print_algorithm\<close>, \<^verbatim>\<open>algorithm_name\<close> and the
    \<^verbatim>\<open>print\<close> of \<^verbatim>\<open>candidate_score\<close>) changes no value and raises nothing; it is left out.
\<close>

subsection \<open>Exceptions and the random source\<close>

datatype error =
    ZeroDivisionError
  | IndexError          \<comment> \<open>list index out of range\<close>
  | IndexError_choice   \<comment> \<open>the \<^verbatim>\<open>IndexError\<close> of \<^verbatim>\<open>random.choice\<close> on an empty sequence\<close>
  | ValueError

type_synonym rng = "nat stream"

type_synonym 'a comp = "rng \<Rightarrow> (error + 'a) \<times> rng"

text \<open>\<^verbatim>\<open>random.choice(seq)\<close>: some element of \<open>seq\<close>, whichever the source of randomness picks.\<close>

definition choice :: "'a list \<Rightarrow> 'a comp" where
  "choice seq r =
     (if seq = [] then (Inl IndexError_choice, r)
      else (Inr (seq ! (shd r mod length seq)), stl r))"

text \<open>\<^verbatim>\<open>random.random()\<close> is a multiple of \<open>2\<^sup>-\<^sup>5\<^sup>3\<close> in \<open>[0, 1)\<close>;
  \<^verbatim>\<open>random.uniform(a, b)\<close> is \<^verbatim>\<open>a + (b - a) * random()\<close>.\<close>

definition random :: "rng \<Rightarrow> rat \<times> rng" where
  "random r = (of_nat (shd r mod 2 ^ 53) / 2 ^ 53, stl r)"

definition uniform :: "rat \<Rightarrow> rat \<Rightarrow> rng \<Rightarrow> rat \<times> rng" where
  "uniform a b r = (case random r of (u, r') \<Rightarrow> (a + (b - a) * u, r'))"

text \<open>\<^verbatim>\<open>xs[i]\<close> for an index that \<^verbatim>\<open>range\<close> produced (never negative).\<close>

definition index :: "'a list \<Rightarrow> nat \<Rightarrow> error + 'a" where
  "index xs i = (if i < length xs then Inr (xs ! i) else Inl IndexError)"

subsection \<open>Digit arithmetic\<close>

text \<open>\<^verbatim>\<open>list_to_int\<close> is called on the integer lists of a problem and on the list of numbers
  a candidate produced.\<close>

definition list_to_int :: "'a::comm_semiring_1 list \<Rightarrow> 'a" where
  "list_to_int x = sum_list (map (\<lambda>i. 10 ^ i * x ! i) [0..<length x])"

definition list_sum :: "int list \<Rightarrow> int list \<Rightarrow> int" where
  "list_sum a b = list_to_int a + list_to_int b"

subsection \<open>Genes\<close>

datatype binary_operation = Add | Mult | Div | Exp

datatype accumulator = Append | Prepend | Replace | Insert_rand

datatype chooser = Len | Rand_in_len | Zero

type_synonym candidate = "binary_operation \<times> accumulator \<times> chooser"

definition add :: "int \<Rightarrow> int \<Rightarrow> error + rat" where
  "add x y = Inr (of_int (x + y))"

definition mult_op :: "int \<Rightarrow> int \<Rightarrow> error + rat" where
  "mult_op x y = Inr (of_int (x * y))"

definition div_op :: "int \<Rightarrow> int \<Rightarrow> error + rat" where
  "div_op x y = (if y = 0 then Inl ZeroDivisionError else Inr (of_int x / of_int y))"

text \<open>\<^verbatim>\<open>x ** y\<close> on integers: an integer for \<open>y \<ge> 0\<close> (with \<open>0 ** 0 = 1\<close>), a float for
  \<open>y < 0\<close>, and \<^verbatim>\<open>ZeroDivisionError\<close> for zero to a negative power.\<close>

definition exp_op :: "int \<Rightarrow> int \<Rightarrow> error + rat" where
  "exp_op x y =
     (if 0 \<le> y then Inr (of_int (x ^ nat y))
      else if x = 0 then Inl ZeroDivisionError
      else Inr (1 / of_int (x ^ nat (- y))))"

fun apply_op :: "binary_operation \<Rightarrow> int \<Rightarrow> int \<Rightarrow> error + rat" where
  "apply_op Add = add"
| "apply_op Mult = mult_op"
| "apply_op Div = div_op"
| "apply_op Exp = exp_op"

definition rand_in_len :: "'a list \<Rightarrow> nat comp" where
  "rand_in_len seq = choice [0..<length seq]"

definition zero :: "'a list \<Rightarrow> nat comp" where
  "zero seq r = (Inr 0, r)"

fun apply_chooser :: "chooser \<Rightarrow> 'a list \<Rightarrow> nat comp" where
  "apply_chooser Len seq r = (Inr (length seq), r)"
| "apply_chooser Rand_in_len seq r = rand_in_len seq r"
| "apply_chooser Zero seq r = zero seq r"

definition append_acc :: "'a list \<Rightarrow> 'a \<Rightarrow> 'a list" where
  "append_acc prev new = prev @ [new]"

definition prepend :: "'a list \<Rightarrow> 'a \<Rightarrow> 'a list" where
  "prepend prev new = [new] @ prev"

definition replace :: "'a list \<Rightarrow> 'a \<Rightarrow> 'a list" where
  "replace prev new = [new]"

definition insert_rand :: "'a list \<Rightarrow> 'a \<Rightarrow> 'a list comp" where
  "insert_rand prev new r =
     (case choice [0..<length prev + 1] r of
        (Inl e, r') \<Rightarrow> (Inl e, r')
      | (Inr i, r') \<Rightarrow> (Inr (take i prev @ [new] @ drop i prev), r'))"

fun apply_acc :: "accumulator \<Rightarrow> 'a list \<Rightarrow> 'a \<Rightarrow> 'a list comp" where
  "apply_acc Append prev new r = (Inr (append_acc prev new), r)"
| "apply_acc Prepend prev new r = (Inr (prepend prev new), r)"
| "apply_acc Replace prev new r = (Inr (replace prev new), r)"
| "apply_acc Insert_rand prev new r = insert_rand prev new r"

definition BINARY_OPERATIONS :: "binary_operation list" where
  "BINARY_OPERATIONS = [Add, Mult, Div, Exp]"

definition ACCUMULATORS :: "accumulator list" where
  "ACCUMULATORS = [Append, Prepend, Replace, Insert_rand]"

definition CHOOSERS :: "chooser list" where
  "CHOOSERS = [Len, Rand_in_len, Zero]"

subsection \<open>The loop every candidate follows\<close>

text \<open>The body of \<^verbatim>\<open>for i in range(chooser(x)): z = acc(z, op(x[i], y[i]))\<close>, over the
  indices still to visit. Python evaluates \<^verbatim>\<open>x[i]\<close>, then \<^verbatim>\<open>y[i]\<close>, then the operation,
  then the accumulator; the first of them to raise ends the loop.\<close>

fun loop_from :: "int list \<Rightarrow> int list \<Rightarrow> binary_operation \<Rightarrow> accumulator \<Rightarrow>
    nat list \<Rightarrow> rat list \<Rightarrow> rat list comp" where
  "loop_from x y op acc [] z r = (Inr z, r)"
| "loop_from x y op acc (i # is) z r =
     (case index x i of
        Inl e \<Rightarrow> (Inl e, r)
      | Inr xi \<Rightarrow>
         (case index y i of
            Inl e \<Rightarrow> (Inl e, r)
          | Inr yi \<Rightarrow>
             (case apply_op op xi yi of
                Inl e \<Rightarrow> (Inl e, r)
              | Inr v \<Rightarrow>
                 (case apply_acc acc z v r of
                    (Inl e, r') \<Rightarrow> (Inl e, r')
                  | (Inr z', r') \<Rightarrow> loop_from x y op acc is z' r'))))"

definition loop :: "int list \<Rightarrow> int list \<Rightarrow> binary_operation \<Rightarrow> accumulator \<Rightarrow> chooser \<Rightarrow>
    rat list comp" where
  "loop x y op acc chooser r =
     (case apply_chooser chooser x r of
        (Inl e, r') \<Rightarrow> (Inl e, r')
      | (Inr n, r') \<Rightarrow> loop_from x y op acc [0..<n] [] r')"

subsection \<open>Problems\<close>

type_synonym problem = "int list \<times> int list \<times> int"

text \<open>\<^verbatim>\<open>[choice(range(10)) for _ in range(size)]\<close>\<close>

fun draw_digits :: "nat \<Rightarrow> int list comp" where
  "draw_digits 0 r = (Inr [], r)"
| "draw_digits (Suc n) r =
     (case choice [0..9] r of
        (Inl e, r') \<Rightarrow> (Inl e, r')
      | (Inr d, r') \<Rightarrow>
         (case draw_digits n r' of
            (Inl e, r'') \<Rightarrow> (Inl e, r'')
          | (Inr ds, r'') \<Rightarrow> (Inr (d # ds), r'')))"

text \<open>\<^verbatim>\<open>[choice(range(10)) % (10 - a[i]) for i in range(size)]\<close>, over the indices still
  to visit.\<close>

fun draw_complements :: "int list \<Rightarrow> nat list \<Rightarrow> int list comp" where
  "draw_complements a [] r = (Inr [], r)"
| "draw_complements a (i # is) r =
     (case choice [0..9] r of
        (Inl e, r') \<Rightarrow> (Inl e, r')
      | (Inr d, r') \<Rightarrow>
         (case index a i of
            Inl e \<Rightarrow> (Inl e, r')
          | Inr ai \<Rightarrow>
             if 10 - ai = 0 then (Inl ZeroDivisionError, r')
             else
               (case draw_complements a is r' of
                  (Inl e, r'') \<Rightarrow> (Inl e, r'')
                | (Inr bs, r'') \<Rightarrow> (Inr (d mod (10 - ai) # bs), r''))))"

definition generate_problem :: "int \<Rightarrow> int \<Rightarrow> problem comp" where
  "generate_problem min_size max_size r =
     (case choice [min_size..max_size - 1] r of
        (Inl e, r1) \<Rightarrow> (Inl e, r1)
      | (Inr sz, r1) \<Rightarrow>
         (case draw_digits (nat sz) r1 of
            (Inl e, r2) \<Rightarrow> (Inl e, r2)
          | (Inr a, r2) \<Rightarrow>
             (case draw_complements a [0..<nat sz] r2 of
                (Inl e, r3) \<Rightarrow> (Inl e, r3)
              | (Inr b, r3) \<Rightarrow> (Inr (a, b, list_sum a b), r3))))"


subsection \<open>Scoring a candidate\<close>

text \<open>The body of the \<^verbatim>\<open>try\<close> block for one problem, up to the value that is added to the
  score: it raises what the loop raises, \<^verbatim>\<open>ValueError\<close> for a digit above 9, and otherwise
  gives \<^verbatim>\<open>abs(alg_ans_val - answer)\<close>.\<close>

definition attempt :: "candidate \<Rightarrow> problem \<Rightarrow> rat comp" where
  "attempt algorithm p r =
     (case algorithm of (op, acc, chooser) \<Rightarrow>
      case p of (a, b, answer) \<Rightarrow>
       (case loop a b op acc chooser r of
          (Inl e, r') \<Rightarrow> (Inl e, r')
        | (Inr alg_ans, r') \<Rightarrow>
            if list_ex (\<lambda>x. x > 9) alg_ans then (Inl ValueError, r')
            else (Inr (abs (list_to_int alg_ans - of_int answer)), r')))"

text \<open>The \<^verbatim>\<open>for\<close> loop over the problems; the bare \<^verbatim>\<open>except\<close> turns every exception of
  the body into 999.\<close>

fun score_loop :: "candidate \<Rightarrow> problem list \<Rightarrow> rat \<Rightarrow> rng \<Rightarrow> rat \<times> rng" where
  "score_loop algorithm [] score r = (score, r)"
| "score_loop algorithm (p # ps) score r =
     (case attempt algorithm p r of
        (Inl e, r') \<Rightarrow> score_loop algorithm ps (score + 999) r'
      | (Inr d, r') \<Rightarrow> score_loop algorithm ps (score + d) r')"

definition candidate_score :: "candidate \<Rightarrow> problem list \<Rightarrow> rat comp" where
  "candidate_score algorithm problems r =
     (case score_loop algorithm problems 0 r of
        (score, r') \<Rightarrow>
          if length problems = 0 then (Inl ZeroDivisionError, r')
          else (Inr (score / of_nat (length problems)), r'))"

subsection \<open>Ranking\<close>




subsection \<open>Reproduction\<close>

text \<open>The source repeats one block for each of the three traits, with the pool and the
  position changed:
  \<^verbatim>\<open>if uniform(0, 1) > 0.25: g = choice([c1[k], c2[k]])\<close>
  \<^verbatim>\<open>else: g = choice([x for x in POOL if x not in [c1[k], c2[k]]])\<close>\<close>

definition trait :: "'g list \<Rightarrow> 'g \<Rightarrow> 'g \<Rightarrow> 'g comp" where
  "trait pool g1 g2 r =
     (case uniform 0 1 r of
        (u, r') \<Rightarrow>
          if u > 1 / 4 then choice [g1, g2] r'
          else choice (filter (\<lambda>x. x \<notin> set [g1, g2]) pool) r')"

text \<open>The body of the inner loop after the \<^verbatim>\<open>continue\<close>: the child of \<open>c1\<close> and \<open>c2\<close>.\<close>

definition child :: "candidate \<Rightarrow> candidate \<Rightarrow> candidate comp" where
  "child c1 c2 r =
     (case trait BINARY_OPERATIONS (fst c1) (fst c2) r of
        (Inl e, r1) \<Rightarrow> (Inl e, r1)
      | (Inr op, r1) \<Rightarrow>
         (case trait ACCUMULATORS (fst (snd c1)) (fst (snd c2)) r1 of
            (Inl e, r2) \<Rightarrow> (Inl e, r2)
          | (Inr acc, r2) \<Rightarrow>
             (case trait CHOOSERS (snd (snd c1)) (snd (snd c2)) r2 of
                (Inl e, r3) \<Rightarrow> (Inl e, r3)
              | (Inr chooser, r3) \<Rightarrow> (Inr (op, acc, chooser), r3))))"

text \<open>\<^verbatim>\<open>for c2 in candidates\<close>, over the candidates still to visit.\<close>

fun inner_loop :: "candidate \<Rightarrow> candidate list \<Rightarrow> candidate set \<Rightarrow> candidate set comp" where
  "inner_loop c1 [] children r = (Inr children, r)"
| "inner_loop c1 (c2 # cs) children r =
     (if c1 = c2 then inner_loop c1 cs children r
      else
        (case child c1 c2 r of
           (Inl e, r') \<Rightarrow> (Inl e, r')
         | (Inr c, r') \<Rightarrow> inner_loop c1 cs (insert c children) r'))"

text \<open>\<^verbatim>\<open>for c1 in candidates\<close>, over the candidates still to visit.\<close>

fun outer_loop :: "candidate list \<Rightarrow> candidate list \<Rightarrow> candidate set \<Rightarrow> candidate set comp" where
  "outer_loop [] candidates children r = (Inr children, r)"
| "outer_loop (c1 # cs) candidates children r =
     (case inner_loop c1 candidates children r of
        (Inl e, r') \<Rightarrow> (Inl e, r')
      | (Inr children', r') \<Rightarrow> outer_loop cs candidates children' r')"

definition repopulate :: "candidate list \<Rightarrow> candidate set comp" where
  "repopulate candidates r = outer_loop candidates candidates (set candidates) r"

subsection \<open>The score as the specification words it\<close>

text \<open>What one problem adds to the running total, in the words of the specification: the
  penalty 999 if the loop raises or the sequence it produced has an element above 9, and the
  distance between the value of the sequence and the expected sum otherwise.\<close>

definition contribution :: "candidate \<Rightarrow> problem \<Rightarrow> rng \<Rightarrow> rat" where
  "contribution algorithm p r =
     (case algorithm of (op, acc, chooser) \<Rightarrow>
      case p of (a, b, answer) \<Rightarrow>
       (case fst (loop a b op acc chooser r) of
          Inl e \<Rightarrow> 999
        | Inr z \<Rightarrow>
            if (\<exists>x \<in> set z. x > 9) then 999
            else abs (list_to_int z - of_int answer)))"

text \<open>The random source after the loop has run on one problem.\<close>

definition rng_after :: "candidate \<Rightarrow> problem \<Rightarrow> rng \<Rightarrow> rng" where
  "rng_after algorithm p r =
     (case algorithm of (op, acc, chooser) \<Rightarrow>
      case p of (a, b, answer) \<Rightarrow> snd (loop a b op acc chooser r))"



section \<open>Properties\<close>

subsection \<open>The random source, the genes and the loop\<close>

lemma choice_Inr:
  "choice seq r = (Inr x, r') \<Longrightarrow> x \<in> set seq \<and> r' = stl r"
  by (auto simp: choice_def split: if_splits)

lemma choice_nonempty:
  "seq \<noteq> [] \<Longrightarrow> choice seq r = (Inr (seq ! (shd r mod length seq)), stl r)"
  by (simp add: choice_def)








lemma loop_from_div_zero:
  "i \<in> set is \<Longrightarrow> i < length y \<Longrightarrow> y ! i = 0 \<Longrightarrow>
     \<exists>e r'. loop_from x y Div acc is z r = (Inl e, r')"
proof (induction "is" arbitrary: z r)
  case Nil
  then show ?case by simp
next
  case (Cons j "is")
  show ?case
  proof (cases "j = i")
    case True
    with Cons.prems show ?thesis
      by (auto simp: index_def div_op_def split: sum.splits)
  next
    case False
    with Cons.prems have "i \<in> set is" by simp
    from Cons.IH [OF this Cons.prems(2,3)] show ?thesis
      by (auto split: sum.splits prod.splits)
  qed
qed

subsection \<open>The worked example\<close>

text \<open>
  C8. On the problem \<open>A = [2, 3]\<close>, \<open>B = [1, 1]\<close>, whose sum is 43, the candidate
  (add, append, full length) produces \<open>Z = [3, 4]\<close>, whose value is 43, and the problem
  adds 0 to the score of the candidate.
\<close>

theorem worked_example_add_append_len:
  "list_sum [2, 3] [1, 1] = 43 \<and>
   loop [2, 3] [1, 1] Add Append Len r = (Inr [3, 4], r) \<and>
   list_to_int [3, 4 :: rat] = 43 \<and>
   attempt (Add, Append, Len) ([2, 3], [1, 1], 43) r = (Inr 0, r) \<and>
   score_loop (Add, Append, Len) [([2, 3], [1, 1], 43)] score r = (score, r) \<and>
   candidate_score (Add, Append, Len) [([2, 3], [1, 1], 43)] r = (Inr 0, r)"
proof -
  have s: "list_sum [2, 3] [1, 1] = 43"
    by (simp add: list_sum_def list_to_int_def upt_rec)
  have l: "loop [2, 3] [1, 1] Add Append Len r = (Inr [3, 4], r)" for r
    by (simp add: loop_def index_def add_def append_acc_def upt_rec)
  have v: "list_to_int [3, 4 :: rat] = 43"
    by (simp add: list_to_int_def upt_rec)
  have a: "attempt (Add, Append, Len) ([2, 3], [1, 1], 43) r = (Inr 0, r)" for r
    by (simp add: attempt_def l v)
  have c: "score_loop (Add, Append, Len) [([2, 3], [1, 1], 43)] score r = (score, r)"
    for score r
    by (simp add: a)
  have "candidate_score (Add, Append, Len) [([2, 3], [1, 1], 43)] r = (Inr 0, r)"
    by (simp add: candidate_score_def c del: score_loop.simps)
  with s l v a c show ?thesis by blast
qed

subsection \<open>The bound of the loop\<close>




subsection \<open>Scoring\<close>

lemma attempt_contribution:
  "(case attempt algorithm p r of
      (Inl e, r') \<Rightarrow> (999, r')
    | (Inr d, r') \<Rightarrow> (d, r')) = (contribution algorithm p r, rng_after algorithm p r)"
  by (cases algorithm; cases p)
     (auto simp: attempt_def contribution_def rng_after_def list_ex_iff
           split: prod.splits sum.splits)

lemma score_loop_step:
  "score_loop algorithm (p # ps) score r =
     score_loop algorithm ps (score + contribution algorithm p r) (rng_after algorithm p r)"
  using attempt_contribution [of algorithm p r]
  by (auto split: prod.splits sum.splits)



lemma score_loop_append:
  "score_loop algorithm (ps @ qs) score r =
     (case score_loop algorithm ps score r of (s1, r1) \<Rightarrow> score_loop algorithm qs s1 r1)"
proof (induction ps arbitrary: score r)
  case Nil
  show ?case by simp
next
  case (Cons p ps)
  show ?case
    unfolding append_Cons score_loop_step
    by (rule Cons.IH)
qed



text \<open>
  C7. Take a candidate whose operation is \<^verbatim>\<open>div\<close> and a problem \<open>(A, B, Sum)\<close> anywhere in
  the list of problems. If \<open>B[i] = 0\<close> at an index \<open>i\<close> below the iteration count that the
  chooser returns when the problem is reached, the problem raises inside the \<^verbatim>\<open>try\<close> block
  and adds the penalty 999 to the running total \<open>s1\<close> of the problems before it.
\<close>

theorem divide_by_zero_digit_penalised:
  assumes pre: "score_loop (Div, acc, chooser) pre 0 r = (s1, r1)"
    and n: "apply_chooser chooser a r1 = (Inr n, r2)"
    and i: "i < n" "i < length b" "b ! i = 0"
  shows "\<exists>e r3. attempt (Div, acc, chooser) (a, b, answer) r1 = (Inl e, r3) \<and>
           score_loop (Div, acc, chooser) (pre @ (a, b, answer) # post) 0 r =
             score_loop (Div, acc, chooser) post (s1 + 999) r3"
proof -
  from i(1) have "i \<in> set [0..<n]" by simp
  from loop_from_div_zero [OF this i(2,3)]
  obtain e r3 where "loop_from a b Div acc [0..<n] [] r2 = (Inl e, r3)" by blast
  with n have "loop a b Div acc chooser r1 = (Inl e, r3)"
    by (simp add: loop_def)
  then have a: "attempt (Div, acc, chooser) (a, b, answer) r1 = (Inl e, r3)"
    by (simp add: attempt_def)
  then have "score_loop (Div, acc, chooser) (pre @ (a, b, answer) # post) 0 r =
             score_loop (Div, acc, chooser) post (s1 + 999) r3"
    by (simp add: score_loop_append pre del: score_loop.simps) simp
  with a show ?thesis by blast
qed


theorem divide_by_zero_digit_penalised_witness:
  "score_loop (Div, Append, Len) [] 0 (sconst 0) = (0, sconst 0) \<and>
   apply_chooser Len [2, 3 :: int] (sconst 0) = (Inr 2, sconst 0) \<and>
   (1 :: nat) < 2 \<and> 1 < length [1, 0 :: int] \<and> [1, 0 :: int] ! 1 = 0 \<and>
   (\<exists>e r3. attempt (Div, Append, Len) ([2, 3], [1, 0], 23) (sconst 0) = (Inl e, r3) \<and>
      score_loop (Div, Append, Len) ([] @ ([2, 3], [1, 0], 23) # []) 0 (sconst 0) =
        score_loop (Div, Append, Len) [] (0 + 999) r3)"
proof -
  have p: "score_loop (Div, Append, Len) [] 0 (sconst 0) = (0, sconst 0)" by simp
  have n: "apply_chooser Len [2, 3 :: int] (sconst 0) = (Inr 2, sconst 0)" by simp
  have i: "(1 :: nat) < 2" "1 < length [1, 0 :: int]" "[1, 0 :: int] ! 1 = 0" by simp_all
  from divide_by_zero_digit_penalised [OF p n i, of 23 "[]"] p n i
  show ?thesis by blast
qed

subsection \<open>The always-zero chooser\<close>








subsection \<open>Generated problems\<close>

lemma choice_digit:
  "\<exists>d. choice [0..9] r = (Inr d, stl r) \<and> 0 \<le> d \<and> d \<le> 9"
proof -
  have ne: "[0..9::int] \<noteq> []" by (simp add: upto.simps)
  let ?d = "[0..9::int] ! (shd r mod length [0..9::int])"
  have "?d \<in> set [0..9::int]" using ne by (intro nth_mem) simp
  then have "0 \<le> ?d \<and> ?d \<le> 9" by simp
  with choice_nonempty [OF ne, of r] show ?thesis by blast
qed

lemma draw_digits_returns:
  "\<exists>ds r'. draw_digits n r = (Inr ds, r') \<and> length ds = n \<and>
     list_all (\<lambda>d. 0 \<le> d \<and> d \<le> 9) ds"
proof (induction n arbitrary: r)
  case 0
  show ?case by simp
next
  case (Suc n)
  obtain d where d: "choice [0..9] r = (Inr d, stl r)" "0 \<le> d" "d \<le> 9"
    using choice_digit by blast
  obtain ds r' where "draw_digits n (stl r) = (Inr ds, r')" "length ds = n"
      "list_all (\<lambda>d. 0 \<le> d \<and> d \<le> 9) ds"
    using Suc.IH by blast
  with d show ?case by simp
qed

lemma draw_complements_returns:
  assumes "list_all (\<lambda>d. 0 \<le> d \<and> d \<le> 9) a"
  shows "\<forall>i\<in>set is. i < length a \<Longrightarrow>
    \<exists>bs r'. draw_complements a is r = (Inr bs, r') \<and> length bs = length is \<and>
      (\<forall>k<length is. 0 \<le> bs ! k \<and> bs ! k \<le> 9 - a ! (is ! k))"
proof (induction "is" arbitrary: r)
  case Nil
  show ?case by simp
next
  case (Cons i "is")
  obtain d where d: "choice [0..9] r = (Inr d, stl r)" "0 \<le> d" "d \<le> 9"
    using choice_digit by blast
  from Cons.prems have i: "i < length a" by simp
  with assms have ai: "0 \<le> a ! i" "a ! i \<le> 9" by (simp_all add: list_all_length)
  from Cons.prems have "\<forall>i\<in>set is. i < length a" by simp
  from Cons.IH [OF this]
  obtain bs r' where bs: "draw_complements a is (stl r) = (Inr bs, r')" "length bs = length is"
      "\<forall>k<length is. 0 \<le> bs ! k \<and> bs ! k \<le> 9 - a ! (is ! k)"
    by blast
  from ai have k: "0 < 10 - a ! i" by simp
  have m: "0 \<le> d mod (10 - a ! i)" "d mod (10 - a ! i) \<le> 9 - a ! i"
    using pos_mod_sign [OF k, of d] pos_mod_bound [OF k, of d] by linarith+
  have "draw_complements a (i # is) r = (Inr (d mod (10 - a ! i) # bs), r')"
    using d(1) i ai bs(1) by (simp add: index_def)
  moreover have "\<forall>k<length (i # is). 0 \<le> (d mod (10 - a ! i) # bs) ! k \<and>
      (d mod (10 - a ! i) # bs) ! k \<le> 9 - a ! ((i # is) ! k)"
    using m bs(3) by (auto simp: nth_Cons split: nat.splits)
  ultimately show ?case using bs(2) by auto
qed

text \<open>
  C2. For \<open>1 \<le> min_size < max_size\<close>, \<^verbatim>\<open>generate_problem\<close> returns a triple
  \<open>(A, B, Sum)\<close>, whatever the random source: \<open>A\<close> and \<open>B\<close> have one length, which lies in
  \<open>[min_size, max_size)\<close>; every \<open>A[i]\<close> is in \<open>[0, 9]\<close> and every \<open>B[i]\<close> in
  \<open>[0, 9 - A[i]]\<close>, so no column carries; and \<open>Sum\<close> is the value of \<open>A\<close> plus the value
  of \<open>B\<close>.
\<close>

theorem generate_problem_no_carry:
  assumes "1 \<le> min_size" and "min_size < max_size"
  shows "\<exists>a b answer r'.
     generate_problem min_size max_size r = (Inr (a, b, answer), r') \<and>
     length a = length b \<and>
     min_size \<le> int (length a) \<and> int (length a) < max_size \<and>
     (\<forall>i<length a. 0 \<le> a ! i \<and> a ! i \<le> 9 \<and> 0 \<le> b ! i \<and> b ! i \<le> 9 - a ! i \<and>
        a ! i + b ! i \<le> 9) \<and>
     answer = list_to_int a + list_to_int b"
proof -
  from assms have ne: "[min_size..max_size - 1] \<noteq> []" by (simp add: upto.simps)
  define sz where "sz = [min_size..max_size - 1] ! (shd r mod length [min_size..max_size - 1])"
  have "sz \<in> set [min_size..max_size - 1]"
    unfolding sz_def using ne by (intro nth_mem) simp
  then have sz: "min_size \<le> sz" "sz < max_size" by simp_all
  have c: "choice [min_size..max_size - 1] r = (Inr sz, stl r)"
    unfolding sz_def by (rule choice_nonempty [OF ne])
  obtain a r2 where a: "draw_digits (nat sz) (stl r) = (Inr a, r2)" "length a = nat sz"
      "list_all (\<lambda>d. 0 \<le> d \<and> d \<le> 9) a"
    using draw_digits_returns by blast
  have "\<forall>i\<in>set [0..<nat sz]. i < length a" using a(2) by simp
  from draw_complements_returns [OF a(3) this]
  obtain b r3 where b: "draw_complements a [0..<nat sz] r2 = (Inr b, r3)"
      "length b = length [0..<nat sz]"
      "\<forall>k<length [0..<nat sz]. 0 \<le> b ! k \<and> b ! k \<le> 9 - a ! ([0..<nat sz] ! k)"
    by blast
  have g: "generate_problem min_size max_size r = (Inr (a, b, list_sum a b), r3)"
    by (simp add: generate_problem_def c a(1) b(1))
  have len: "length a = length b" using a(2) b(2) by simp
  have rng: "min_size \<le> int (length a)" "int (length a) < max_size"
    using sz assms(1) a(2) by simp_all
  have dig: "\<forall>i<length a. 0 \<le> a ! i \<and> a ! i \<le> 9 \<and> 0 \<le> b ! i \<and> b ! i \<le> 9 - a ! i \<and>
        a ! i + b ! i \<le> 9"
  proof (intro allI impI)
    fix i
    assume i: "i < length a"
    with a(3) have "0 \<le> a ! i \<and> a ! i \<le> 9" by (simp add: list_all_length)
    moreover from i a(2) b(3) have "0 \<le> b ! i \<and> b ! i \<le> 9 - a ! i" by simp
    ultimately show "0 \<le> a ! i \<and> a ! i \<le> 9 \<and> 0 \<le> b ! i \<and> b ! i \<le> 9 - a ! i \<and>
        a ! i + b ! i \<le> 9" by simp
  qed
  from g len rng dig show ?thesis by (auto simp: list_sum_def)
qed

theorem generate_problem_no_carry_witness:
  "(1 :: int) \<le> 2 \<and> (2 :: int) < 3 \<and>
   generate_problem 2 3 (sconst 7) = (Inr ([7, 7], [1, 1], 88), sconst 7) \<and>
   (\<exists>a b answer r'.
     generate_problem 2 3 (sconst 7) = (Inr (a, b, answer), r') \<and>
     length a = length b \<and>
     2 \<le> int (length a) \<and> int (length a) < 3 \<and>
     (\<forall>i<length a. 0 \<le> a ! i \<and> a ! i \<le> 9 \<and> 0 \<le> b ! i \<and> b ! i \<le> 9 - a ! i \<and>
        a ! i + b ! i \<le> 9) \<and>
     answer = list_to_int a + list_to_int b)"
proof -
  have h: "(1 :: int) \<le> 2" "(2 :: int) < 3" by simp_all
  have g: "generate_problem 2 3 (sconst 7) = (Inr ([7, 7], [1, 1], 88), sconst 7)"
    by (simp add: generate_problem_def choice_def upto.simps numeral_2_eq_2 index_def upt_rec
          list_sum_def list_to_int_def)
  from generate_problem_no_carry [OF h, of "sconst 7"] g h show ?thesis by blast
qed


subsection \<open>Reproduction\<close>

lemma BINARY_OPERATIONS_rest:
  "filter (\<lambda>x. x \<notin> set [g1, g2]) BINARY_OPERATIONS \<noteq> []"
  by (cases g1; cases g2) (simp_all add: BINARY_OPERATIONS_def)

lemma ACCUMULATORS_rest:
  "filter (\<lambda>x. x \<notin> set [g1, g2]) ACCUMULATORS \<noteq> []"
  by (cases g1; cases g2) (simp_all add: ACCUMULATORS_def)

lemma CHOOSERS_rest:
  "filter (\<lambda>x. x \<notin> set [g1, g2]) CHOOSERS \<noteq> []"
  by (cases g1; cases g2) (simp_all add: CHOOSERS_def)

lemma uniform_rng: "\<exists>u. uniform a b r = (u, stl r)"
proof -
  have "uniform a b r = (fst (uniform a b r), stl r)"
    by (simp add: uniform_def random_def)
  then show ?thesis ..
qed

lemma trait_returns:
  assumes "filter (\<lambda>x. x \<notin> set [g1, g2]) pool \<noteq> []"
  shows "\<exists>g. trait pool g1 g2 r = (Inr g, stl (stl r)) \<and>
           (if fst (uniform 0 1 r) > 1 / 4 then g = g1 \<or> g = g2
            else g \<in> set pool \<and> g \<noteq> g1 \<and> g \<noteq> g2)"
proof -
  obtain u where u: "uniform 0 1 r = (u, stl r)"
    using uniform_rng by blast
  show ?thesis
  proof (cases "u > 1 / 4")
    case True
    have "[g1, g2] \<noteq> []" by simp
    from choice_nonempty [OF this, of "stl r"]
    obtain g where g: "choice [g1, g2] (stl r) = (Inr g, stl (stl r))" by blast
    from choice_Inr [OF g] have "g = g1 \<or> g = g2" by simp
    with u True g show ?thesis by (simp add: trait_def)
  next
    case False
    from choice_nonempty [OF assms, of "stl r"]
    obtain g where g: "choice (filter (\<lambda>x. x \<notin> set [g1, g2]) pool) (stl r) =
        (Inr g, stl (stl r))"
      by blast
    from choice_Inr [OF g] have "g \<in> set pool \<and> g \<noteq> g1 \<and> g \<noteq> g2" by simp
    with u False g show ?thesis by (simp add: trait_def)
  qed
qed

lemma trait_mutation:
  assumes "trait pool g1 g2 r = (Inr g, r')" and "\<not> fst (uniform 0 1 r) > 1 / 4"
  shows "g \<in> set pool \<and> g \<noteq> g1 \<and> g \<noteq> g2 \<and> r' = stl (stl r)"
proof -
  obtain u where u: "uniform 0 1 r = (u, stl r)"
    using uniform_rng by blast
  with assms have "choice (filter (\<lambda>x. x \<notin> set [g1, g2]) pool) (stl r) = (Inr g, r')"
    by (simp add: trait_def)
  from choice_Inr [OF this] show ?thesis by simp
qed

lemma trait_rng:
  assumes "trait pool g1 g2 r = (Inr g, r')"
  shows "r' = stl (stl r)"
proof -
  obtain u where u: "uniform 0 1 r = (u, stl r)"
    using uniform_rng by blast
  with assms choice_Inr show ?thesis
    by (fastforce simp: trait_def split: if_splits)
qed

lemma child_returns: "\<exists>c r'. child c1 c2 r = (Inr c, r')"
proof -
  obtain op r1 where "trait BINARY_OPERATIONS (fst c1) (fst c2) r = (Inr op, r1)"
    using trait_returns [OF BINARY_OPERATIONS_rest] by blast
  moreover
  obtain acc r2 where "trait ACCUMULATORS (fst (snd c1)) (fst (snd c2)) r1 = (Inr acc, r2)"
    using trait_returns [OF ACCUMULATORS_rest] by blast
  moreover
  obtain chooser r3 where "trait CHOOSERS (snd (snd c1)) (snd (snd c2)) r2 = (Inr chooser, r3)"
    using trait_returns [OF CHOOSERS_rest] by blast
  ultimately show ?thesis by (simp add: child_def)
qed

lemma inner_loop_returns:
  "\<exists>S r'. inner_loop c1 cs children r = (Inr S, r') \<and> children \<subseteq> S"
proof (induction cs arbitrary: children r)
  case Nil
  show ?case by simp
next
  case (Cons c2 cs)
  show ?case
  proof (cases "c1 = c2")
    case True
    with Cons.IH [of children r] show ?thesis by simp
  next
    case False
    obtain c r' where c: "child c1 c2 r = (Inr c, r')"
      using child_returns by blast
    from Cons.IH [of "insert c children" r']
    obtain S r'' where "inner_loop c1 cs (insert c children) r' = (Inr S, r'')"
        "insert c children \<subseteq> S"
      by blast
    with False c show ?thesis by auto
  qed
qed

lemma outer_loop_returns:
  "\<exists>S r'. outer_loop cs candidates children r = (Inr S, r') \<and> children \<subseteq> S"
proof (induction cs arbitrary: children r)
  case Nil
  show ?case by simp
next
  case (Cons c1 cs)
  obtain S1 r1 where i: "inner_loop c1 candidates children r = (Inr S1, r1)" "children \<subseteq> S1"
    using inner_loop_returns by blast
  from Cons.IH [of S1 r1]
  obtain S r' where "outer_loop cs candidates S1 r1 = (Inr S, r')" "S1 \<subseteq> S" by blast
  with i show ?case by auto
qed

text \<open>
  C3. \<^verbatim>\<open>repopulate\<close> returns a population, and every survivor it was given is a member of
  it.
\<close>

theorem repopulate_keeps_survivors:
  "\<exists>S r'. repopulate candidates r = (Inr S, r') \<and> set candidates \<subseteq> S"
  unfolding repopulate_def by (rule outer_loop_returns)

theorem repopulate_keeps_survivors_witness:
  "repopulate [(Add, Append, Len), (Mult, Prepend, Zero)] (sconst 0) =
     (Inr {(Add, Append, Len), (Mult, Prepend, Zero), (Div, Replace, Rand_in_len)}, sconst 0) \<and>
   set [(Add, Append, Len), (Mult, Prepend, Zero)] \<subseteq>
     {(Add, Append, Len), (Mult, Prepend, Zero), (Div, Replace, Rand_in_len)}"
proof -
  have e: "repopulate [(Add, Append, Len), (Mult, Prepend, Zero)] (sconst 0) =
     (Inr {(Add, Append, Len), (Mult, Prepend, Zero), (Div, Replace, Rand_in_len)}, sconst 0)"
    by (simp add: repopulate_def child_def trait_def uniform_def random_def choice_def
          BINARY_OPERATIONS_def ACCUMULATORS_def CHOOSERS_def insert_commute)
  from repopulate_keeps_survivors [of "[(Add, Append, Len), (Mult, Prepend, Zero)]" "sconst 0"] e
  show ?thesis by auto
qed

text \<open>
  C10. \<^verbatim>\<open>repopulate\<close> raises on no input. The operation and accumulator pools have 4
  members and the chooser pool 3; a pool without the genes of the two parents at a position
  is never empty, so the \<^verbatim>\<open>choice\<close> of the mutation branch always has something to choose
  from, every child is produced, and the loops run to the end.
\<close>

theorem repopulate_total:
  "filter (\<lambda>x. x \<notin> set [fst c1, fst c2]) BINARY_OPERATIONS \<noteq> [] \<and>
   filter (\<lambda>x. x \<notin> set [fst (snd c1), fst (snd c2)]) ACCUMULATORS \<noteq> [] \<and>
   filter (\<lambda>x. x \<notin> set [snd (snd c1), snd (snd c2)]) CHOOSERS \<noteq> [] \<and>
   length BINARY_OPERATIONS = 4 \<and> length ACCUMULATORS = 4 \<and> length CHOOSERS = 3 \<and>
   (\<exists>c r'. child c1 c2 r = (Inr c, r')) \<and>
   (\<exists>S r'. repopulate candidates r = (Inr S, r'))"
proof -
  have "\<exists>S r'. repopulate candidates r = (Inr S, r')"
    unfolding repopulate_def using outer_loop_returns by blast
  moreover have "length BINARY_OPERATIONS = 4 \<and> length ACCUMULATORS = 4 \<and> length CHOOSERS = 3"
    by (simp add: BINARY_OPERATIONS_def ACCUMULATORS_def CHOOSERS_def)
  ultimately show ?thesis
    using BINARY_OPERATIONS_rest ACCUMULATORS_rest CHOOSERS_rest child_returns by blast
qed

theorem repopulate_total_witness:
  "filter (\<lambda>x. x \<notin> set [Len, Zero]) CHOOSERS = [Rand_in_len] \<and>
   filter (\<lambda>x. x \<notin> set [Add, Exp]) BINARY_OPERATIONS = [Mult, Div] \<and>
   (\<exists>c r'. child (Add, Append, Len) (Exp, Append, Zero) (sconst 0) = (Inr c, r')) \<and>
   (\<exists>S r'. repopulate [(Add, Append, Len), (Exp, Append, Zero), (Add, Append, Zero)] (sconst 0) =
      (Inr S, r'))"
proof -
  have f: "filter (\<lambda>x. x \<notin> set [Len, Zero]) CHOOSERS = [Rand_in_len]"
      "filter (\<lambda>x. x \<notin> set [Add, Exp]) BINARY_OPERATIONS = [Mult, Div]"
    by (simp_all add: CHOOSERS_def BINARY_OPERATIONS_def)
  from repopulate_total [of "(Add, Append, Len)" "(Exp, Append, Zero)" "sconst 0"
      "[(Add, Append, Len), (Exp, Append, Zero), (Add, Append, Zero)]"] f
  show ?thesis by simp
qed

text \<open>
  C4. A child of \<open>c1\<close> and \<open>c2\<close> draws \<^verbatim>\<open>uniform(0, 1)\<close> for the operation first, for the
  accumulator two draws later and for the chooser four draws later. Whenever such a draw is
  not above 0.25 (the mutation branch), the gene chosen at that position is a member of the
  pool of the position and differs from the gene of \<open>c1\<close> and from the gene of \<open>c2\<close> there.
\<close>

theorem mutation_excludes_parents:
  assumes "child c1 c2 r = (Inr (op, acc, chooser), r')"
  shows "(\<not> fst (uniform 0 1 r) > 1 / 4 \<longrightarrow>
            op \<in> set BINARY_OPERATIONS \<and> op \<noteq> fst c1 \<and> op \<noteq> fst c2) \<and>
         (\<not> fst (uniform 0 1 (sdrop 2 r)) > 1 / 4 \<longrightarrow>
            acc \<in> set ACCUMULATORS \<and> acc \<noteq> fst (snd c1) \<and> acc \<noteq> fst (snd c2)) \<and>
         (\<not> fst (uniform 0 1 (sdrop 4 r)) > 1 / 4 \<longrightarrow>
            chooser \<in> set CHOOSERS \<and> chooser \<noteq> snd (snd c1) \<and> chooser \<noteq> snd (snd c2))"
proof -
  from assms obtain r1 r2 where
    t: "trait BINARY_OPERATIONS (fst c1) (fst c2) r = (Inr op, r1)"
       "trait ACCUMULATORS (fst (snd c1)) (fst (snd c2)) r1 = (Inr acc, r2)"
       "trait CHOOSERS (snd (snd c1)) (snd (snd c2)) r2 = (Inr chooser, r')"
    by (auto simp: child_def split: prod.splits sum.splits)
  have r1: "r1 = sdrop 2 r" using trait_rng [OF t(1)] by (simp add: numeral_2_eq_2)
  have "r2 = stl (stl r1)" by (rule trait_rng [OF t(2)])
  with r1 have r2: "r2 = sdrop 4 r" by (simp add: numeral_2_eq_2 numeral_Bit0 sdrop_add)
  from t(2) r1 have t2: "trait ACCUMULATORS (fst (snd c1)) (fst (snd c2)) (sdrop 2 r) = (Inr acc, r2)"
    by simp
  from t(3) r2 have t3: "trait CHOOSERS (snd (snd c1)) (snd (snd c2)) (sdrop 4 r) = (Inr chooser, r')"
    by simp
  show ?thesis
    using trait_mutation [OF t(1)] trait_mutation [OF t2] trait_mutation [OF t3]
    by blast
qed

theorem mutation_excludes_parents_witness:
  "child (Add, Append, Len) (Mult, Prepend, Zero) (sconst 0) =
     (Inr (Div, Replace, Rand_in_len), sconst 0) \<and>
   \<not> fst (uniform 0 1 (sconst 0)) > 1 / 4 \<and>
   Div \<in> set BINARY_OPERATIONS \<and> Div \<noteq> Add \<and> Div \<noteq> Mult \<and>
   Replace \<in> set ACCUMULATORS \<and> Replace \<noteq> Append \<and> Replace \<noteq> Prepend \<and>
   Rand_in_len \<in> set CHOOSERS \<and> Rand_in_len \<noteq> Len \<and> Rand_in_len \<noteq> Zero"
proof -
  have c: "child (Add, Append, Len) (Mult, Prepend, Zero) (sconst 0) =
     (Inr (Div, Replace, Rand_in_len), sconst 0)"
    by (simp add: child_def trait_def uniform_def random_def choice_def
          BINARY_OPERATIONS_def ACCUMULATORS_def CHOOSERS_def)
  have u: "\<not> fst (uniform 0 1 (sconst 0)) > 1 / 4"
    by (simp add: uniform_def random_def)
  from mutation_excludes_parents [OF c] u c show ?thesis by simp
qed


subsection \<open>Ranking\<close>





end
